theory Spec2Isabelle
  imports Main "HOL-Library.AList"
begin

section \<open>Data model\<close>

text \<open>
  Documents of the four collections the helper reads and writes.  Object ids are
  compared through their string form (\<^verbatim>\<open>toString()\<close>) and used as object keys,
  dates are compared as milliseconds since the epoch.
\<close>

type_synonym objectId = string
type_synonym date = int

text \<open>A JavaScript number as far as the counters need it: an integer or \<^verbatim>\<open>NaN\<close>.\<close>

datatype jsnum = Num int | NaN

record post_ref =
  post_id :: objectId
  post_title :: string

text \<open>
  \<^verbatim>\<open>emailSentAt\<close> is a sub-document with one slot per frequency; an absent slot
  is what the queries match with \<^verbatim>\<open>null\<close>.
\<close>

record notification =
  n_id :: objectId
  n_receiver :: objectId
  post :: post_ref
  action :: string
  createdAt :: date
  readAt :: "date option"
  emailSentAt :: "(string \<times> date) list"

text \<open>
  The object built per post by \<^verbatim>\<open>_aggregateNotifications\<close>.  \<^verbatim>\<open>counts\<close> is
  an object indexed by the action string, kept as an association list in property order.
\<close>

record post_aggregate =
  latest :: "notification option"
  agg_post :: post_ref
  counts :: "(string \<times> jsnum) list"

section \<open>Digest aggregator\<close>

text \<open>
  Modelled from the spec: \<^verbatim>\<open>../models/notification-action\<close> is not part of the
  sources; the action kinds are comment, like and share, the keys of the counts object.
\<close>

definition NotificationAction_COMMENT :: string where
  "NotificationAction_COMMENT = ''comment''"

definition NotificationAction_LIKE :: string where
  "NotificationAction_LIKE = ''like''"

definition NotificationAction_SHARE :: string where
  "NotificationAction_SHARE = ''share''"

text \<open>\<^verbatim>\<open>x += 1\<close> on a property: a missing property reads \<^verbatim>\<open>undefined\<close>, and
  \<^verbatim>\<open>undefined + 1\<close> is \<^verbatim>\<open>NaN\<close>.\<close>

fun plus_one :: "jsnum option \<Rightarrow> jsnum" where
  "plus_one (Some (Num n)) = Num (n + 1)"
| "plus_one (Some NaN) = NaN"
| "plus_one None = NaN"

definition increment :: "string \<Rightarrow> (string \<times> jsnum) list \<Rightarrow> (string \<times> jsnum) list" where
  "increment k c = AList.update k (plus_one (map_of c k)) c"

definition initialCounts :: "(string \<times> jsnum) list" where
  "initialCounts = [(''comment'', Num 0), (''like'', Num 0), (''share'', Num 0), (''total'', Num 0)]"

text \<open>
  Lines 262-276: what one notification does to the entry of its post, the object
  \<^verbatim>\<open>notificationCountsByPost[postId]\<close>.  The counter of the action and the total
  are incremented; only a comment goes on to \<^verbatim>\<open>latest\<close>, which it takes when there
  is none yet or when the held one was created strictly earlier.
\<close>

definition updateGroup :: "notification \<Rightarrow> post_aggregate \<Rightarrow> post_aggregate" where
  "updateGroup notification g =
    (let g1 = g\<lparr>counts := increment (action notification) (counts g)\<rparr>;
         g2 = g1\<lparr>counts := increment ''total'' (counts g1)\<rparr>
     in if action notification \<noteq> NotificationAction_COMMENT then g2
        else (case latest g2 of
                None \<Rightarrow> g2\<lparr>latest := Some notification\<rparr>
              | Some l \<Rightarrow> if createdAt l < createdAt notification
                         then g2\<lparr>latest := Some notification\<rparr> else g2))"

text \<open>Lines 251-260: the entry created for a post at its first notification.\<close>

definition newGroup :: "notification \<Rightarrow> post_aggregate" where
  "newGroup notification =
     \<lparr>latest = None, agg_post = post notification, counts = initialCounts\<rparr>"

text \<open>
  One iteration of the \<^verbatim>\<open>for\<close> loop of \<^verbatim>\<open>_aggregateNotifications\<close> (lines 247-277).
  \<^verbatim>\<open>notificationCountsByPost\<close> is an object keyed by post id; its entries are kept in
  insertion order, the order \<^verbatim>\<open>Object.values\<close> enumerates keys that are not array
  indices (post ids are 24-digit hexadecimal object ids).
\<close>

definition aggregateStep ::
  "notification \<Rightarrow> (objectId \<times> post_aggregate) list \<Rightarrow> (objectId \<times> post_aggregate) list" where
  "aggregateStep notification tbl =
    (let postId = post_id (post notification);
         tbl1 = (if map_of tbl postId = None then tbl @ [(postId, newGroup notification)]
                 else tbl)
     in AList.map_entry postId (updateGroup notification) tbl1)"

definition countsByPost :: "notification list \<Rightarrow> (objectId \<times> post_aggregate) list" where
  "countsByPost notifications = foldl (\<lambda>tbl n. aggregateStep n tbl) [] notifications"

text \<open>\<^verbatim>\<open>counts.total\<close> as the comparator of the sort reads it.\<close>

definition total_of :: "post_aggregate \<Rightarrow> int" where
  "total_of g = (case map_of (counts g) ''total'' of Some (Num n) \<Rightarrow> n | _ \<Rightarrow> 0)"

text \<open>
  \<^verbatim>\<open>_aggregateNotifications\<close>: the values of the table, sorted with the comparator
  \<^verbatim>\<open>b.counts.total - a.counts.total\<close> (a stable sort, descending by total), cut to
  the first three.
\<close>

definition aggregateNotifications :: "notification list \<Rightarrow> post_aggregate list" where
  "aggregateNotifications notifications =
     take 3 (sort_key (\<lambda>g. - total_of g) (map snd (countsByPost notifications)))"

section \<open>Database documents and state\<close>

record participant =
  p_id :: objectId
  newMessages :: int
  lastAccess :: date
  status :: string

text \<open>\<^verbatim>\<open>notifyPrefs.instant.message\<close>: the flag the unread-message finder reads.\<close>

record instant_prefs =
  pref_message :: bool

record notify_prefs =
  instant :: instant_prefs

record user =
  u_id :: objectId
  email :: string
  notifyPrefs :: "notify_prefs option"

record thread =
  t_id :: objectId
  participants :: "participant list"

text \<open>A thread after the \<^verbatim>\<open>$lookup\<close> stage: the matching user documents are joined
  under \<^verbatim>\<open>users\<close>.\<close>

record joined_thread = thread +
  joined_users :: "user list"

record message_doc =
  m_id :: objectId
  threadId :: objectId
  m_createdAt :: date
  content :: string

text \<open>A group of the messages pipeline: \<^verbatim>\<open>{ _id: threadId, latestMessage }\<close>.\<close>

record message_group =
  g_id :: objectId
  latestMessage :: message_doc

text \<open>An element of the result of \<^verbatim>\<open>findUnreadDirectMessages\<close>; the receiver is
  \<^verbatim>\<open>{ ...receiver, email }\<close>, kept as the participant and the email beside it.\<close>

record unread_message =
  um_sender :: participant
  um_receiver :: participant
  um_email :: string
  um_message :: message_doc

record digest =
  posts :: "post_aggregate list"
  digest_receiver :: user

text \<open>The database: its four collections, each a sequence of documents.\<close>

record db =
  db_threads :: "thread list"
  db_messages :: "message_doc list"
  db_notifications :: "notification list"
  db_users :: "user list"

text \<open>
  The only exception the helper's own statements can raise is the \<^verbatim>\<open>TypeError\<close> of
  reading a property of \<^verbatim>\<open>undefined\<close>; an \<^verbatim>\<open>async\<close> method then rejects
  (\<open>Inl\<close>) instead of resolving (\<open>Inr\<close>).
\<close>

datatype error = TypeError

section \<open>URI builder\<close>

text \<open>A configuration value as JavaScript sees it, with its truthiness and the string a
  template literal makes of it.\<close>

datatype jsval = JUndefined | JNull | JBool bool | JNum int | JStr string

fun truthy :: "jsval \<Rightarrow> bool" where
  "truthy JUndefined = False"
| "truthy JNull = False"
| "truthy (JBool b) = b"
| "truthy (JNum n) = (n \<noteq> 0)"
| "truthy (JStr s) = (s \<noteq> [])"

definition digit_char :: "nat \<Rightarrow> char" where
  "digit_char n = ''0123456789'' ! n"

function show_nat :: "nat \<Rightarrow> string" where
  "show_nat n = (if n < 10 then [digit_char n] else show_nat (n div 10) @ [digit_char (n mod 10)])"
  by pat_completeness auto
termination
  by (relation "measure id") auto

declare show_nat.simps [simp del]

definition show_int :: "int \<Rightarrow> string" where
  "show_int i = (if i < 0 then CHR ''-'' # show_nat (nat (- i)) else show_nat (nat i))"

fun toString :: "jsval \<Rightarrow> string" where
  "toString JUndefined = ''undefined''"
| "toString JNull = ''null''"
| "toString (JBool b) = (if b then ''true'' else ''false'')"
| "toString (JNum n) = show_int n"
| "toString (JStr s) = s"

record config =
  protocol :: jsval
  username :: jsval
  password :: jsval
  host :: jsval
  port :: jsval
  retryWrites :: jsval
  database :: jsval
  cfg_instantUnreadLookbackInterval :: int

text \<open>\<^verbatim>\<open>_buildUri\<close> (lines 285-296).\<close>

definition buildUri :: "config \<Rightarrow> string" where
  "buildUri cfg =
    (let usernamePassword =
           (if truthy (username cfg) \<and> truthy (password cfg)
            then toString (username cfg) @ '':'' @ toString (password cfg) @ ''@''
            else '''');
         port_segment = (if truthy (port cfg) then '':'' @ toString (port cfg) else '''');
         retryWrites_segment =
           (if truthy (retryWrites cfg) then ''?retryWrites=true&w=majority'' else '''')
     in toString (protocol cfg) @ ''://'' @ usernamePassword @ toString (host cfg)
          @ port_segment @ retryWrites_segment)"

text \<open>The helper object the constructor builds (lines 8-13); the database handle is the
  state the methods below are passed.\<close>

record helper =
  uri :: string
  dbName :: jsval
  instantUnreadLookbackInterval :: int

definition constructor :: "config \<Rightarrow> helper" where
  "constructor cfg =
     \<lparr>uri = buildUri cfg, dbName = database cfg,
      instantUnreadLookbackInterval = cfg_instantUnreadLookbackInterval cfg\<rparr>"

section \<open>Collaborators outside the sources\<close>

text \<open>
  Modelled from the spec: \<^verbatim>\<open>./date-helper\<close> is not part of the sources.  The spec's
  thresholds are "now minus the lookback interval" in minutes and "now minus the window"
  in days; dates are milliseconds.  What \<^verbatim>\<open>subtractDays\<close> makes of an undefined
  number of days is not fixed here: the digest path takes it as a parameter.
\<close>

definition subtractMinutes :: "date \<Rightarrow> int \<Rightarrow> date" where
  "subtractMinutes d minutes = d - minutes * 60000"

definition subtractDays :: "date \<Rightarrow> int \<Rightarrow> date" where
  "subtractDays d days = d - days * 86400000"

text \<open>
  Modelled from the spec: \<^verbatim>\<open>../models/email-frequency\<close> is not part of the sources;
  the frequencies are instant, daily, weekly and biweekly, and the instant query reads the
  slot \<^verbatim>\<open>emailSentAt.instant\<close> that the stamp of \<^verbatim>\<open>EmailFrequency.INSTANT\<close> writes.
\<close>

definition EmailFrequency_INSTANT :: string where
  "EmailFrequency_INSTANT = ''instant''"

definition EmailFrequency_DAILY :: string where
  "EmailFrequency_DAILY = ''daily''"

definition EmailFrequency_WEEKLY :: string where
  "EmailFrequency_WEEKLY = ''weekly''"

definition EmailFrequency_BIWEEKLY :: string where
  "EmailFrequency_BIWEEKLY = ''biweekly''"

text \<open>
  Modelled from the spec: \<^verbatim>\<open>../models/message-thread-status\<close> is not part of the
  sources; the statuses are accepted, pending and others.
\<close>

definition MessageThreadStatus_ACCEPTED :: string where
  "MessageThreadStatus_ACCEPTED = ''accepted''"

definition MessageThreadStatus_PENDING :: string where
  "MessageThreadStatus_PENDING = ''pending''"

section \<open>Database operations\<close>

text \<open>\<^verbatim>\<open>collection(...).aggregate(pipeline)\<close>: a query; it computes its result from
  the database and leaves the database as it is.\<close>

definition aggregate :: "(db \<Rightarrow> 'a) \<Rightarrow> db \<Rightarrow> 'a \<times> db" where
  "aggregate pipeline d = (pipeline d, d)"

text \<open>
  \<^verbatim>\<open>setEmailSentAt\<close> (lines 128-139): \<^verbatim>\<open>updateMany\<close> on the notifications whose id
  is listed, setting the slot of the frequency to the current time, the reading
  \<open>now\<close> of the clock at the update.
\<close>

definition setEmailSentAt :: "objectId list \<Rightarrow> string \<Rightarrow> date \<Rightarrow> db \<Rightarrow> db" where
  "setEmailSentAt notificationIds frequency now d =
     d\<lparr>db_notifications :=
         map (\<lambda>n. if n_id n \<in> set notificationIds
                  then n\<lparr>emailSentAt := AList.update frequency now (emailSentAt n)\<rparr>
                  else n)
             (db_notifications d)\<rparr>"

section \<open>Unread-message finder\<close>

text \<open>
  The threads pipeline (lines 34-60).  A condition on a field of the \<^verbatim>\<open>participants\<close>
  array holds when some participant satisfies it, each condition on its own.  The
  \<^verbatim>\<open>$lookup\<close> joins the users whose id is the id of a participant.
\<close>

definition threadsPipeline :: "helper \<Rightarrow> date \<Rightarrow> db \<Rightarrow> joined_thread list" where
  "threadsPipeline this now d =
     map (\<lambda>t. \<lparr>t_id = t_id t, participants = participants t,
                joined_users = filter (\<lambda>u. u_id u \<in> set (map p_id (participants t))) (db_users d)\<rparr>)
       (filter
          (\<lambda>t. (\<exists>p\<in>set (participants t). 0 < newMessages p) \<and>
               (\<exists>p\<in>set (participants t).
                   lastAccess p < subtractMinutes now (instantUnreadLookbackInterval this)) \<and>
               (\<exists>p\<in>set (participants t).
                   status p = MessageThreadStatus_ACCEPTED \<or>
                   status p = MessageThreadStatus_PENDING))
          (db_threads d))"

text \<open>
  The messages pipeline (lines 72-88): the messages of the given threads, sorted by
  creation time, one group per thread holding the last message of the thread.  The server
  fixes neither the order of the groups nor the order of messages created at the same
  time; the groups are taken in the order of the sorted messages and the sort is stable.
\<close>

definition messagesPipeline :: "objectId list \<Rightarrow> db \<Rightarrow> message_group list" where
  "messagesPipeline threadIds d =
     (let sorted_messages =
            sort_key m_createdAt (filter (\<lambda>m. threadId m \<in> set threadIds) (db_messages d))
      in map (\<lambda>t. \<lparr>g_id = t,
                    latestMessage = last (filter (\<lambda>m. threadId m = t) sorted_messages)\<rparr>)
           (remdups (map threadId sorted_messages)))"

text \<open>Lines 105-106: the two \<^verbatim>\<open>find\<close> calls on the participants.\<close>

definition findSender :: "participant list \<Rightarrow> participant option" where
  "findSender ps = find (\<lambda>p. newMessages p = 0) ps"

definition findReceiver :: "participant list \<Rightarrow> participant option" where
  "findReceiver ps = find (\<lambda>p. 0 < newMessages p) ps"

text \<open>
  Lines 110-122, for a resolved sender and receiver: the receiver's user is looked up
  among the joined users; destructuring \<^verbatim>\<open>undefined\<close> when there is none throws.
  The result is the element pushed, or \<open>None\<close> when the iteration ends with
  \<^verbatim>\<open>continue\<close>.
\<close>

definition deliver ::
  "joined_thread \<Rightarrow> message_group \<Rightarrow> participant \<Rightarrow> participant
     \<Rightarrow> error + unread_message option" where
  "deliver thread message sender receiver =
     (case find (\<lambda>user. u_id user = p_id receiver) (joined_users thread) of
        None \<Rightarrow> Inl TypeError
      | Some receiverUser \<Rightarrow>
          (case notifyPrefs receiverUser of
             Some prefs \<Rightarrow>
               if \<not> pref_message (instant prefs) then Inr None
               else Inr (Some \<lparr>um_sender = sender, um_receiver = receiver,
                                um_email = email receiverUser,
                                um_message = latestMessage message\<rparr>)
           | None \<Rightarrow>
               Inr (Some \<lparr>um_sender = sender, um_receiver = receiver,
                           um_email = email receiverUser,
                           um_message = latestMessage message\<rparr>)))"

text \<open>The body of the \<^verbatim>\<open>while\<close> loop (lines 93-122) for one group of the cursor.\<close>

definition unreadBody ::
  "(objectId \<rightharpoonup> joined_thread) \<Rightarrow> message_group \<Rightarrow> error + unread_message option" where
  "unreadBody threadsObject message =
     (case threadsObject (g_id message) of
        None \<Rightarrow> Inl TypeError
      | Some thread \<Rightarrow>
          (case findSender (participants thread) of
             None \<Rightarrow> Inr None
           | Some sender \<Rightarrow>
               (case findReceiver (participants thread) of
                  None \<Rightarrow> Inr None
                | Some receiver \<Rightarrow> deliver thread message sender receiver)))"

text \<open>The loop over the cursor; \<open>acc\<close> is the array \<^verbatim>\<open>messages\<close>.  An exception
  leaves the loop and the method.\<close>

fun unreadLoop ::
  "(objectId \<rightharpoonup> joined_thread) \<Rightarrow> message_group list \<Rightarrow> unread_message list
     \<Rightarrow> error + unread_message list" where
  "unreadLoop threadsObject [] acc = Inr acc"
| "unreadLoop threadsObject (message # cursor) acc =
     (case unreadBody threadsObject message of
        Inl e \<Rightarrow> Inl e
      | Inr None \<Rightarrow> unreadLoop threadsObject cursor acc
      | Inr (Some m) \<Rightarrow> unreadLoop threadsObject cursor (acc @ [m]))"

text \<open>
  \<^verbatim>\<open>findUnreadDirectMessages\<close> (lines 31-126), at the clock reading \<open>now\<close>.
  \<^verbatim>\<open>threadsObject\<close> is keyed by thread id, a later thread replacing an earlier one
  of the same id.
\<close>

definition findUnreadDirectMessages ::
  "helper \<Rightarrow> date \<Rightarrow> db \<Rightarrow> (error + unread_message list) \<times> db" where
  "findUnreadDirectMessages this now d =
     (let (threads, d1) = aggregate (threadsPipeline this now) d;
          threadIds = map t_id threads;
          threadsObject = map_of (rev (map (\<lambda>thread. (t_id thread, thread)) threads));
          (cursor, d2) = aggregate (messagesPipeline threadIds) d1
      in (unreadLoop threadsObject cursor [], d2))"

section \<open>Notification finder\<close>

text \<open>
  The pipeline of \<^verbatim>\<open>_findInstantNotifications\<close> (lines 142-168): unread notifications
  with no instant stamp, created before the lookback threshold; the \<^verbatim>\<open>$lookup\<close> and
  \<^verbatim>\<open>$unwind\<close> give one result per user document of the receiver and none when there
  is no such user.
\<close>

definition instantPipeline :: "helper \<Rightarrow> date \<Rightarrow> db \<Rightarrow> (notification \<times> user) list" where
  "instantPipeline this now d =
     concat (map (\<lambda>n. map (\<lambda>u. (n, u)) (filter (\<lambda>u. u_id u = n_receiver n) (db_users d)))
       (filter
          (\<lambda>n. readAt n = None \<and> map_of (emailSentAt n) ''instant'' = None \<and>
               createdAt n < subtractMinutes now (instantUnreadLookbackInterval this))
          (db_notifications d)))"

text \<open>\<^verbatim>\<open>_findInstantNotifications\<close> (lines 141-176); \<open>now\<close> is the clock at the
  query and \<open>stamp_time\<close> the clock at the update.\<close>

definition findInstantNotifications ::
  "helper \<Rightarrow> date \<Rightarrow> date \<Rightarrow> db \<Rightarrow> (error + (notification \<times> user) list) \<times> db" where
  "findInstantNotifications this now stamp_time d =
     (let (found, d1) = aggregate (instantPipeline this now) d;
          d2 = setEmailSentAt (map (\<lambda>notification. n_id (fst notification)) found)
                 EmailFrequency_INSTANT stamp_time d1
      in (Inr found, d2))"

text \<open>Lines 179-186: the interval of a frequency; \<open>None\<close> is \<^verbatim>\<open>undefined\<close>, the value
  \<^verbatim>\<open>intervalDays\<close> keeps when no branch assigns it.\<close>

definition intervalDays :: "string \<Rightarrow> int option" where
  "intervalDays frequency =
     (if frequency = EmailFrequency_DAILY then Some 1
      else if frequency = EmailFrequency_WEEKLY then Some 7
      else if frequency = EmailFrequency_BIWEEKLY then Some 14
      else None)"

text \<open>
  Line 195: the lower bound of the creation time.  \<open>undefined_days now\<close> stands for
  \<^verbatim>\<open>DateHelper.subtractDays(new Date(), undefined)\<close> as the database compares it.
\<close>

definition digestCutoff :: "(date \<Rightarrow> date) \<Rightarrow> date \<Rightarrow> string \<Rightarrow> date" where
  "digestCutoff undefined_days now frequency =
     (case intervalDays frequency of
        Some days \<Rightarrow> subtractDays now days
      | None \<Rightarrow> undefined_days now)"

text \<open>The \<^verbatim>\<open>$match\<close> stage of the digest pipeline (lines 192-197).\<close>

definition digestSelected ::
  "(date \<Rightarrow> date) \<Rightarrow> date \<Rightarrow> string \<Rightarrow> db \<Rightarrow> notification list" where
  "digestSelected undefined_days now frequency d =
     filter (\<lambda>n. map_of (emailSentAt n) frequency = None \<and>
                 digestCutoff undefined_days now frequency < createdAt n)
       (db_notifications d)"

text \<open>
  The whole digest pipeline (lines 190-220): the selected notifications grouped by
  receiver (the groups in the order of their first notification), each group joined with
  the user documents of its receiver.
\<close>

definition digestPipeline ::
  "(date \<Rightarrow> date) \<Rightarrow> date \<Rightarrow> string \<Rightarrow> db \<Rightarrow> (user \<times> notification list) list" where
  "digestPipeline undefined_days now frequency d =
     (let selected = digestSelected undefined_days now frequency d
      in concat (map (\<lambda>r. map (\<lambda>u. (u, filter (\<lambda>n. n_receiver n = r) selected))
                            (filter (\<lambda>u. u_id u = r) (db_users d)))
           (remdups (map n_receiver selected))))"

text \<open>\<^verbatim>\<open>_findDigestNotifications\<close> (lines 178-243).\<close>

definition findDigestNotifications ::
  "(date \<Rightarrow> date) \<Rightarrow> date \<Rightarrow> date \<Rightarrow> string \<Rightarrow> db \<Rightarrow> (error + digest list) \<times> db" where
  "findDigestNotifications undefined_days now stamp_time frequency d =
     (let (groups, d1) = aggregate (digestPipeline undefined_days now frequency) d;
          digests = map (\<lambda>(receiver_user, ns).
                           \<lparr>posts = aggregateNotifications ns, digest_receiver = receiver_user\<rparr>)
                      groups;
          processedNotificationIds = concat (map (\<lambda>(receiver_user, ns). map n_id ns) groups);
          d2 = setEmailSentAt processedNotificationIds frequency stamp_time d1
      in (Inr digests, d2))"

text \<open>What \<^verbatim>\<open>findNotifications\<close> resolves with: the instant list or the digest list.\<close>

datatype found = Instant "(notification \<times> user) list" | Digests "digest list"

text \<open>\<^verbatim>\<open>findNotifications\<close> (lines 24-29).\<close>

definition findNotifications ::
  "helper \<Rightarrow> (date \<Rightarrow> date) \<Rightarrow> date \<Rightarrow> date \<Rightarrow> string \<Rightarrow> db \<Rightarrow> (error + found) \<times> db" where
  "findNotifications this undefined_days now stamp_time frequency d =
     (if frequency = EmailFrequency_INSTANT
      then (case findInstantNotifications this now stamp_time d of
              (r, d') \<Rightarrow> (map_sum id Instant r, d'))
      else (case findDigestNotifications undefined_days now stamp_time frequency d of
              (r, d') \<Rightarrow> (map_sum id Digests r, d')))"

section \<open>Example data\<close>

text \<open>Concrete documents on which the theorems below are instantiated.\<close>

definition mkNotification ::
  "objectId \<Rightarrow> objectId \<Rightarrow> objectId \<Rightarrow> string \<Rightarrow> date \<Rightarrow> notification" where
  "mkNotification i r p a t =
     \<lparr>n_id = i, n_receiver = r, post = \<lparr>post_id = p, post_title = ''a post''\<rparr>,
      action = a, createdAt = t, readAt = None, emailSentAt = []\<rparr>"

text \<open>The scenario of the spec: five notifications on post A (three likes, two shares)
  and two comments on post B, the later one at time 10.\<close>

definition scenario :: "notification list" where
  "scenario =
     [mkNotification ''n1'' ''u1'' ''A'' ''like'' 1,
      mkNotification ''n2'' ''u1'' ''B'' ''comment'' 4,
      mkNotification ''n3'' ''u1'' ''A'' ''share'' 2,
      mkNotification ''n4'' ''u1'' ''A'' ''like'' 3,
      mkNotification ''n5'' ''u1'' ''B'' ''comment'' 10,
      mkNotification ''n6'' ''u1'' ''A'' ''like'' 5,
      mkNotification ''n7'' ''u1'' ''A'' ''share'' 6]"

text \<open>Three comments on one post, created at times 1, 3 and 2, and a like on another.\<close>

definition comment1 :: notification where
  "comment1 = mkNotification ''c1'' ''u1'' ''A'' ''comment'' 1"

definition comment2 :: notification where
  "comment2 = mkNotification ''c2'' ''u1'' ''A'' ''comment'' 3"

definition comment3 :: notification where
  "comment3 = mkNotification ''c3'' ''u1'' ''A'' ''comment'' 2"

definition like1 :: notification where
  "like1 = mkNotification ''l1'' ''u1'' ''B'' ''like'' 5"

definition this0 :: helper where
  "this0 = \<lparr>uri = ''mongodb://localhost'', dbName = JStr ''fp'',
            instantUnreadLookbackInterval = 5\<rparr>"

definition alice :: user where
  "alice = \<lparr>u_id = ''u1'', email = ''alice@example.org'', notifyPrefs = None\<rparr>"

definition bob :: user where
  "bob = \<lparr>u_id = ''u2'', email = ''bob@example.org'',
           notifyPrefs = Some \<lparr>instant = \<lparr>pref_message = True\<rparr>\<rparr>\<rparr>"

definition mkParticipant :: "objectId \<Rightarrow> int \<Rightarrow> participant" where
  "mkParticipant i n = \<lparr>p_id = i, newMessages = n, lastAccess = 0, status = ''accepted''\<rparr>"

definition message1 :: message_doc where
  "message1 = \<lparr>m_id = ''m1'', threadId = ''t1'', m_createdAt = 10, content = ''hello''\<rparr>"

definition message2 :: message_doc where
  "message2 = \<lparr>m_id = ''m2'', threadId = ''t2'', m_createdAt = 20, content = ''hi''\<rparr>"

text \<open>Two threads with one unread message each; the receiver of the first, \<open>u9\<close>, has
  no user document.\<close>

definition db_orphan :: db where
  "db_orphan =
     \<lparr>db_threads =
        [\<lparr>t_id = ''t1'', participants = [mkParticipant ''u1'' 0, mkParticipant ''u9'' 3]\<rparr>,
         \<lparr>t_id = ''t2'', participants = [mkParticipant ''u1'' 0, mkParticipant ''u2'' 2]\<rparr>],
      db_messages = [message1, message2],
      db_notifications = [],
      db_users = [alice, bob]\<rparr>"

text \<open>The same database without the first thread.\<close>

definition db_sound :: db where
  "db_sound = db_orphan\<lparr>db_threads := tl (db_threads db_orphan)\<rparr>"

definition thread_pair :: joined_thread where
  "thread_pair = \<lparr>t_id = ''t2'',
      participants = [mkParticipant ''u1'' 0, mkParticipant ''u2'' 3],
      joined_users = [alice, bob]\<rparr>"

definition thread_idle :: joined_thread where
  "thread_idle = \<lparr>t_id = ''t3'',
      participants = [mkParticipant ''u1'' 0, mkParticipant ''u2'' 0],
      joined_users = [alice, bob]\<rparr>"

definition cfg_user_only :: config where
  "cfg_user_only = \<lparr>protocol = JStr ''mongodb'', username = JStr ''admin'',
     password = JUndefined, host = JStr ''localhost'', port = JNum 27017,
     retryWrites = JBool True, database = JStr ''fp'',
     cfg_instantUnreadLookbackInterval = 5\<rparr>"

text \<open>Notifications around the weekly boundary of the clock reading 700000000: one
  created exactly seven days before, one six days before, and one a day before that
  carries a weekly stamp already.\<close>

definition week_old :: notification where
  "week_old = mkNotification ''w1'' ''u1'' ''A'' ''like'' 95200000"

definition six_days_old :: notification where
  "six_days_old = mkNotification ''w2'' ''u1'' ''B'' ''comment'' 181600000"

definition sent_weekly :: notification where
  "sent_weekly =
     (mkNotification ''w3'' ''u2'' ''A'' ''share'' 613600000)\<lparr>emailSentAt := [(''weekly'', 5)]\<rparr>"

definition db_week :: db where
  "db_week = \<lparr>db_threads = [], db_messages = [],
               db_notifications = [week_old, six_days_old, sent_weekly],
               db_users = [alice, bob]\<rparr>"

text \<open>An invalid date sent to the server as the date 0: one possible reading of
  \<^verbatim>\<open>subtractDays(new Date(), undefined)\<close>.\<close>

definition epoch :: "date \<Rightarrow> date" where
  "epoch now = 0"

text \<open>Two unread notifications: one old enough at the clock reading 1300000 with a
  lookback of five minutes, one created exactly at the threshold.\<close>

definition aged :: notification where
  "aged = mkNotification ''i1'' ''u2'' ''A'' ''like'' 400000"

definition fresh :: notification where
  "fresh = mkNotification ''i2'' ''u1'' ''A'' ''comment'' 1000000"

definition db_instant :: db where
  "db_instant = \<lparr>db_threads = [], db_messages = [],
                  db_notifications = [aged, fresh],
                  db_users = [alice, bob]\<rparr>"

text \<open>The sound database with one more thread, in which both participants have unread
  messages.\<close>

definition message3 :: message_doc where
  "message3 = \<lparr>m_id = ''m3'', threadId = ''t4'', m_createdAt = 30, content = ''hey''\<rparr>"

definition db_busy :: db where
  "db_busy =
     db_sound\<lparr>db_threads := db_threads db_sound @
                  [\<lparr>t_id = ''t4'',
                    participants = [mkParticipant ''u1'' 1, mkParticipant ''u2'' 2]\<rparr>],
               db_messages := db_messages db_sound @ [message3]\<rparr>"

text \<open>A notification six days old with no stamp whose receiver, \<open>u9\<close>, has no user
  document.\<close>

definition stray :: notification where
  "stray = mkNotification ''w9'' ''u9'' ''A'' ''like'' 181600000"

definition db_stray :: db where
  "db_stray = \<lparr>db_threads = [], db_messages = [],
                db_notifications = [stray],
                db_users = [alice, bob]\<rparr>"

section \<open>The grouping table\<close>

lemma countsByPost_snoc:
  "countsByPost (ns @ [n]) = aggregateStep n (countsByPost ns)"
  by (simp add: countsByPost_def)

lemma keys_map_entry: "map fst (AList.map_entry k f xs) = map fst xs"
  by (induction xs) auto

lemma keys_aggregateStep:
  "map fst (aggregateStep n tbl) =
     (if map_of tbl (post_id (post n)) = None then map fst tbl @ [post_id (post n)]
      else map fst tbl)"
  by (simp add: aggregateStep_def Let_def keys_map_entry)

lemma distinct_countsByPost: "distinct (map fst (countsByPost ns))"
proof (induction ns rule: rev_induct)
  case Nil
  then show ?case by (simp add: countsByPost_def)
next
  case (snoc n ns)
  then show ?case
    by (auto simp: countsByPost_snoc keys_aggregateStep map_of_eq_None_iff)
qed

lemma map_of_aggregateStep:
  "map_of (aggregateStep n tbl) k =
     (if k = post_id (post n)
      then Some (updateGroup n (case map_of tbl k of None \<Rightarrow> newGroup n | Some g \<Rightarrow> g))
      else map_of tbl k)"
  by (auto simp: aggregateStep_def Let_def map_of_map_entry map_add_def split: option.splits)

text \<open>The entry of a post is the fold of \<open>updateGroup\<close> over the notifications of
  that post alone, starting from the entry its first notification creates.\<close>

lemma map_of_countsByPost:
  "map_of (countsByPost ns) k =
     (case filter (\<lambda>n. post_id (post n) = k) ns of
        [] \<Rightarrow> None
      | m # ms \<Rightarrow> Some (foldl (\<lambda>g n. updateGroup n g) (newGroup m) (m # ms)))"
proof (induction ns rule: rev_induct)
  case Nil
  then show ?case by (simp add: countsByPost_def)
next
  case (snoc n ns)
  then show ?case
    by (auto simp: countsByPost_snoc map_of_aggregateStep split: list.splits)
qed

lemma in_aggregate_map_of:
  assumes "g \<in> set (aggregateNotifications ns)"
  shows "\<exists>k. map_of (countsByPost ns) k = Some g"
proof -
  from assms have "g \<in> set (map snd (countsByPost ns))"
    unfolding aggregateNotifications_def by (auto dest: in_set_takeD)
  then obtain k where "(k, g) \<in> set (countsByPost ns)" by auto
  with distinct_countsByPost [of ns] have "map_of (countsByPost ns) k = Some g" by simp
  then show ?thesis ..
qed

lemma in_aggregate_foldl:
  assumes "g \<in> set (aggregateNotifications ns)"
  shows "\<exists>m ms. filter (\<lambda>n. post_id (post n) = post_id (post m)) ns = m # ms \<and>
           g = foldl (\<lambda>g n. updateGroup n g) (newGroup m) (m # ms)"
proof -
  from in_aggregate_map_of [OF assms] obtain k where k: "map_of (countsByPost ns) k = Some g" ..
  then obtain m ms where f: "filter (\<lambda>n. post_id (post n) = k) ns = m # ms"
    and g: "g = foldl (\<lambda>g n. updateGroup n g) (newGroup m) (m # ms)"
    by (auto simp: map_of_countsByPost split: list.splits)
  from f have "m \<in> set (filter (\<lambda>n. post_id (post n) = k) ns)" by simp
  then have "post_id (post m) = k" by simp
  with f g show ?thesis by blast
qed

section \<open>One entry of the table\<close>

lemma map_of_increment:
  "map_of (increment k c) k' = (if k' = k then Some (plus_one (map_of c k)) else map_of c k')"
  by (simp add: increment_def update_conv')

lemma counts_updateGroup:
  "counts (updateGroup n g) = increment ''total'' (increment (action n) (counts g))"
  by (simp add: updateGroup_def Let_def split: option.splits)

lemma agg_post_updateGroup: "agg_post (updateGroup n g) = agg_post g"
  by (simp add: updateGroup_def Let_def split: option.splits)

lemma latest_updateGroup:
  "latest (updateGroup n g) =
     (if action n \<noteq> NotificationAction_COMMENT then latest g
      else (case latest g of
              None \<Rightarrow> Some n
            | Some l \<Rightarrow> if createdAt l < createdAt n then Some n else Some l))"
  by (simp add: updateGroup_def Let_def split: option.splits)

lemma agg_post_foldl: "agg_post (foldl (\<lambda>g n. updateGroup n g) g ms) = agg_post g"
  by (induction ms arbitrary: g) (simp_all add: agg_post_updateGroup)

lemma total_foldl:
  "map_of (counts g) ''total'' = Some (Num t) \<Longrightarrow>
   \<exists>t'. map_of (counts (foldl (\<lambda>g n. updateGroup n g) g ms)) ''total'' = Some (Num t')"
proof (induction ms arbitrary: g t)
  case Nil
  then show ?case by simp
next
  case (Cons n ms)
  have "\<exists>u. map_of (counts (updateGroup n g)) ''total'' = Some (Num u)"
    using Cons.prems
    by (cases "action n = ''total''") (simp_all add: counts_updateGroup map_of_increment)
  then obtain u where "map_of (counts (updateGroup n g)) ''total'' = Some (Num u)" ..
  from Cons.IH [OF this] show ?case by simp
qed

lemma tally_updateGroup:
  assumes "action n = ''comment'' \<or> action n = ''like'' \<or> action n = ''share''"
    and "map_of (counts g) ''comment'' = Some (Num c)"
    and "map_of (counts g) ''like'' = Some (Num l)"
    and "map_of (counts g) ''share'' = Some (Num s)"
    and "map_of (counts g) ''total'' = Some (Num (c + l + s))"
  shows "\<exists>c' l' s'.
      map_of (counts (updateGroup n g)) ''comment'' = Some (Num c') \<and>
      map_of (counts (updateGroup n g)) ''like'' = Some (Num l') \<and>
      map_of (counts (updateGroup n g)) ''share'' = Some (Num s') \<and>
      map_of (counts (updateGroup n g)) ''total'' = Some (Num (c' + l' + s'))"
proof -
  consider "action n = ''comment''" | "action n = ''like''" | "action n = ''share''"
    using assms(1) by blast
  then show ?thesis
  proof cases
    case 1
    then show ?thesis using assms(2-5)
      by (simp add: counts_updateGroup map_of_increment)
  next
    case 2
    then show ?thesis using assms(2-5)
      by (simp add: counts_updateGroup map_of_increment)
  next
    case 3
    then show ?thesis using assms(2-5)
      by (simp add: counts_updateGroup map_of_increment)
  qed
qed

lemma tally_foldl:
  assumes "\<forall>n\<in>set ms. action n = ''comment'' \<or> action n = ''like'' \<or> action n = ''share''"
    and "map_of (counts g) ''comment'' = Some (Num c)"
    and "map_of (counts g) ''like'' = Some (Num l)"
    and "map_of (counts g) ''share'' = Some (Num s)"
    and "map_of (counts g) ''total'' = Some (Num (c + l + s))"
  shows "\<exists>c' l' s'.
      map_of (counts (foldl (\<lambda>g n. updateGroup n g) g ms)) ''comment'' = Some (Num c') \<and>
      map_of (counts (foldl (\<lambda>g n. updateGroup n g) g ms)) ''like'' = Some (Num l') \<and>
      map_of (counts (foldl (\<lambda>g n. updateGroup n g) g ms)) ''share'' = Some (Num s') \<and>
      map_of (counts (foldl (\<lambda>g n. updateGroup n g) g ms)) ''total'' = Some (Num (c' + l' + s'))"
  using assms
proof (induction ms arbitrary: g c l s)
  case Nil
  then show ?case by simp
next
  case (Cons n ms)
  let ?g = "updateGroup n g"
  from Cons.prems(1)
  have a: "action n = ''comment'' \<or> action n = ''like'' \<or> action n = ''share''"
    by simp
  from tally_updateGroup [OF a Cons.prems(2-5)] obtain c1 l1 s1 where h:
    "map_of (counts ?g) ''comment'' = Some (Num c1)"
    "map_of (counts ?g) ''like'' = Some (Num l1)"
    "map_of (counts ?g) ''share'' = Some (Num s1)"
    "map_of (counts ?g) ''total'' = Some (Num (c1 + l1 + s1))"
    by blast
  from Cons.prems(1)
  have r: "\<forall>n\<in>set ms. action n = ''comment'' \<or> action n = ''like'' \<or> action n = ''share''"
    by simp
  from Cons.IH [OF r h] show ?case by simp
qed

text \<open>After any run of notifications, \<open>latest\<close> is empty exactly when it was empty and
  no comment came, and otherwise holds a comment no older than every comment seen.\<close>

lemma latest_foldl:
  fixes g ms
  defines "g' \<equiv> foldl (\<lambda>g n. updateGroup n g) g ms"
  shows "(latest g' = None \<longleftrightarrow>
            latest g = None \<and> \<not> (\<exists>n\<in>set ms. action n = NotificationAction_COMMENT)) \<and>
         (\<forall>l. latest g' = Some l \<longrightarrow>
            (latest g = Some l \<or> (l \<in> set ms \<and> action l = NotificationAction_COMMENT)) \<and>
            (\<forall>m\<in>set ms. action m = NotificationAction_COMMENT \<longrightarrow> createdAt m \<le> createdAt l) \<and>
            (\<forall>l0. latest g = Some l0 \<longrightarrow> createdAt l0 \<le> createdAt l))"
  unfolding g'_def
proof (induction ms rule: rev_induct)
  case Nil
  then show ?case by simp
next
  case (snoc n ms)
  let ?h = "foldl (\<lambda>g n. updateGroup n g) g ms"
  show ?case
  proof (cases "action n = NotificationAction_COMMENT")
    case False
    with snoc show ?thesis by (simp add: latest_updateGroup) blast
  next
    case True
    show ?thesis
    proof (cases "latest ?h")
      case None
      with True snoc show ?thesis by (simp add: latest_updateGroup)
    next
      case (Some l)
      with True snoc show ?thesis
        by (simp add: latest_updateGroup) (smt (verit) order.trans less_imp_le not_le)
    qed
  qed
qed

section \<open>Digest aggregator: the claims\<close>

text \<open>
  C3.  For every list of notifications the aggregator returns at most three
  post-aggregates, in descending order of \<^verbatim>\<open>counts.total\<close>; the total of each is a
  number, the one the order compares.
\<close>

theorem aggregate_top_three_sorted:
  "length (aggregateNotifications ns) \<le> 3 \<and>
   sorted_wrt (\<lambda>a b. total_of b \<le> total_of a) (aggregateNotifications ns) \<and>
   (\<forall>g\<in>set (aggregateNotifications ns). map_of (counts g) ''total'' = Some (Num (total_of g)))"
proof (intro conjI ballI)
  show "length (aggregateNotifications ns) \<le> 3"
    by (simp add: aggregateNotifications_def)
next
  let ?tbl = "map snd (countsByPost ns)"
  have "sorted (map (\<lambda>g. - total_of g) (sort_key (\<lambda>g. - total_of g) ?tbl))"
    by (rule sorted_sort_key)
  then have "sorted_wrt (\<lambda>a b. total_of b \<le> total_of a) (sort_key (\<lambda>g. - total_of g) ?tbl)"
    by (simp add: sorted_map)
  then show "sorted_wrt (\<lambda>a b. total_of b \<le> total_of a) (aggregateNotifications ns)"
    unfolding aggregateNotifications_def by (rule sorted_wrt_take)
next
  fix g assume "g \<in> set (aggregateNotifications ns)"
  from in_aggregate_foldl [OF this] obtain m ms where
    g: "g = foldl (\<lambda>g n. updateGroup n g) (newGroup m) (m # ms)" by blast
  have "map_of (counts (newGroup m)) ''total'' = Some (Num 0)"
    by (simp add: newGroup_def initialCounts_def)
  from total_foldl [OF this, of "m # ms"] g
  obtain t where "map_of (counts g) ''total'' = Some (Num t)" by blast
  then show "map_of (counts g) ''total'' = Some (Num (total_of g))"
    by (simp add: total_of_def)
qed

theorem aggregate_top_three_sorted_witness:
  "map total_of (aggregateNotifications scenario) = [5, 2] \<and>
   length (aggregateNotifications scenario) \<le> 3 \<and>
   sorted_wrt (\<lambda>a b. total_of b \<le> total_of a) (aggregateNotifications scenario)"
proof -
  have "map total_of (aggregateNotifications scenario) = [5, 2]" by code_simp
  with aggregate_top_three_sorted [of scenario] show ?thesis by simp
qed

text \<open>
  C4.  When every notification's action is comment, like or share, every post-aggregate
  the aggregator returns has numeric counters with
  \<^verbatim>\<open>counts.total == counts.comment + counts.like + counts.share\<close>.
\<close>

theorem aggregate_total_is_sum:
  assumes "\<forall>n\<in>set ns. action n \<in>
             {NotificationAction_COMMENT, NotificationAction_LIKE, NotificationAction_SHARE}"
    and "g \<in> set (aggregateNotifications ns)"
  shows "\<exists>c l s. map_of (counts g) ''comment'' = Some (Num c) \<and>
                 map_of (counts g) ''like'' = Some (Num l) \<and>
                 map_of (counts g) ''share'' = Some (Num s) \<and>
                 map_of (counts g) ''total'' = Some (Num (c + l + s))"
proof -
  from in_aggregate_foldl [OF assms(2)] obtain m ms where
    f: "filter (\<lambda>n. post_id (post n) = post_id (post m)) ns = m # ms" and
    g: "g = foldl (\<lambda>g n. updateGroup n g) (newGroup m) (m # ms)" by blast
  have "set (m # ms) \<subseteq> set ns" unfolding f [symmetric] by simp
  with assms(1) have a: "\<forall>n\<in>set (m # ms).
      action n = ''comment'' \<or> action n = ''like'' \<or> action n = ''share''"
    unfolding NotificationAction_COMMENT_def NotificationAction_LIKE_def
      NotificationAction_SHARE_def by blast
  have i: "map_of (counts (newGroup m)) ''comment'' = Some (Num 0)"
    "map_of (counts (newGroup m)) ''like'' = Some (Num 0)"
    "map_of (counts (newGroup m)) ''share'' = Some (Num 0)"
    "map_of (counts (newGroup m)) ''total'' = Some (Num (0 + 0 + 0))"
    by (simp_all add: newGroup_def initialCounts_def)
  from tally_foldl [OF a i] show ?thesis unfolding g .
qed

theorem aggregate_total_is_sum_witness:
  "\<exists>c l s. map_of (counts (hd (aggregateNotifications scenario))) ''comment'' = Some (Num c) \<and>
           map_of (counts (hd (aggregateNotifications scenario))) ''like'' = Some (Num l) \<and>
           map_of (counts (hd (aggregateNotifications scenario))) ''share'' = Some (Num s) \<and>
           map_of (counts (hd (aggregateNotifications scenario))) ''total'' = Some (Num (c + l + s))"
proof -
  have a: "\<forall>n\<in>set scenario. action n \<in>
             {NotificationAction_COMMENT, NotificationAction_LIKE, NotificationAction_SHARE}"
    by (simp add: scenario_def mkNotification_def NotificationAction_COMMENT_def
          NotificationAction_LIKE_def NotificationAction_SHARE_def)
  have "aggregateNotifications scenario \<noteq> []" by code_simp
  then have m: "hd (aggregateNotifications scenario) \<in> set (aggregateNotifications scenario)"
    by simp
  from aggregate_total_is_sum [OF a m] show ?thesis .
qed

text \<open>
  C5.  In every post-aggregate returned, \<^verbatim>\<open>latest\<close> is null exactly when the input
  has no comment on that post; otherwise it is a comment of the input on that post whose
  creation time no comment on the post exceeds.  Only comments ever reach it.  For
  comments created at 1, 3 and 2 it is the one created at 3.
\<close>

theorem aggregate_latest_comment:
  assumes "g \<in> set (aggregateNotifications ns)"
  shows "(latest g = None \<longleftrightarrow>
            \<not> (\<exists>n\<in>set ns. post_id (post n) = post_id (agg_post g) \<and>
                  action n = NotificationAction_COMMENT)) \<and>
         (\<forall>l. latest g = Some l \<longrightarrow>
            l \<in> set ns \<and> post_id (post l) = post_id (agg_post g) \<and>
            action l = NotificationAction_COMMENT \<and>
            (\<forall>m\<in>set ns. post_id (post m) = post_id (agg_post g) \<and>
                 action m = NotificationAction_COMMENT \<longrightarrow> createdAt m \<le> createdAt l))"
proof -
  from in_aggregate_foldl [OF assms] obtain m ms where
    f: "filter (\<lambda>n. post_id (post n) = post_id (post m)) ns = m # ms" and
    g: "g = foldl (\<lambda>g n. updateGroup n g) (newGroup m) (m # ms)" by blast
  have p: "post_id (agg_post g) = post_id (post m)"
    unfolding g by (simp only: agg_post_foldl) (simp add: newGroup_def)
  have s: "set (m # ms) = {n \<in> set ns. post_id (post n) = post_id (agg_post g)}"
    unfolding f [symmetric] p by auto
  have n: "latest (newGroup m) = None" by (simp add: newGroup_def)
  from latest_foldl [of "newGroup m" "m # ms"] show ?thesis
    unfolding g [symmetric] n s by auto
qed

theorem aggregate_latest_comment_witness:
  "latest (hd (aggregateNotifications [comment1, comment2, like1, comment3])) = Some comment2 \<and>
   latest (last (aggregateNotifications [comment1, comment2, like1, comment3])) = None"
proof -
  let ?ns = "[comment1, comment2, like1, comment3]"
  let ?r = "aggregateNotifications ?ns"
  have ne: "?r \<noteq> []" by code_simp
  have pa: "post_id (agg_post (hd ?r)) = ''A''" by code_simp
  have pb: "post_id (agg_post (last ?r)) = ''B''" by code_simp
  have d: "post_id (post comment1) = ''A''" "post_id (post comment2) = ''A''"
    "post_id (post comment3) = ''A''" "post_id (post like1) = ''B''"
    "action comment1 = ''comment''" "action comment2 = ''comment''"
    "action comment3 = ''comment''" "action like1 = ''like''"
    "createdAt comment1 = 1" "createdAt comment2 = 3" "createdAt comment3 = 2"
    by (simp_all add: comment1_def comment2_def comment3_def like1_def mkNotification_def)
  have ha: "hd ?r \<in> set ?r" and hb: "last ?r \<in> set ?r" using ne by simp_all
  note A = aggregate_latest_comment [OF ha, unfolded pa]
  note B = aggregate_latest_comment [OF hb, unfolded pb]
  have "\<exists>n\<in>set ?ns. post_id (post n) = ''A'' \<and> action n = NotificationAction_COMMENT"
    by (simp add: d NotificationAction_COMMENT_def)
  with A obtain l where l: "latest (hd ?r) = Some l" by blast
  with A have m: "l \<in> set ?ns" and a: "action l = NotificationAction_COMMENT"
    and "\<forall>m\<in>set ?ns. post_id (post m) = ''A'' \<and> action m = NotificationAction_COMMENT
           \<longrightarrow> createdAt m \<le> createdAt l"
    by blast+
  then have "createdAt comment2 \<le> createdAt l"
    by (simp add: d NotificationAction_COMMENT_def)
  with m a have "l = comment2"
    by (auto simp: d NotificationAction_COMMENT_def)
  with l have 1: "latest (hd ?r) = Some comment2" by simp
  have "\<not> (\<exists>n\<in>set ?ns. post_id (post n) = ''B'' \<and> action n = NotificationAction_COMMENT)"
    by (simp add: d NotificationAction_COMMENT_def)
  with B have 2: "latest (last ?r) = None" by blast
  from 1 2 show ?thesis ..
qed

section \<open>Unread-message finder: the claims\<close>

lemma deliver_roles:
  "deliver thread message sender receiver = Inr (Some m) \<Longrightarrow>
     um_sender m = sender \<and> um_receiver m = receiver"
  by (auto simp: deliver_def split: option.splits if_splits)

lemma unreadLoop_Inr:
  "unreadLoop threadsObject cursor acc = Inr out \<Longrightarrow>
     out = acc @ concat (map (\<lambda>m. case unreadBody threadsObject m of
                                     Inr (Some x) \<Rightarrow> [x] | _ \<Rightarrow> []) cursor)"
proof (induction cursor arbitrary: acc)
  case Nil
  then show ?case by simp
next
  case (Cons m cursor)
  show ?case
  proof (cases "unreadBody threadsObject m")
    case (Inl e)
    with Cons.prems show ?thesis by simp
  next
    case (Inr y)
    show ?thesis
    proof (cases y)
      case None
      with Inr Cons.prems have "unreadLoop threadsObject cursor acc = Inr out" by simp
      from Cons.IH [OF this] Inr None show ?thesis by simp
    next
      case (Some x)
      with Inr Cons.prems have "unreadLoop threadsObject cursor (acc @ [x]) = Inr out" by simp
      from Cons.IH [OF this] Inr Some show ?thesis by simp
    qed
  qed
qed

lemma pushed_by_body:
  "x \<in> set (case unreadBody threadsObject m of Inr (Some y) \<Rightarrow> [y] | _ \<Rightarrow> []) \<longleftrightarrow>
     unreadBody threadsObject m = Inr (Some x)"
  by (cases "unreadBody threadsObject m") (auto split: option.splits)

lemma unreadLoop_pushed:
  assumes "unreadLoop threadsObject cursor acc = Inr out"
  shows "x \<in> set out \<longleftrightarrow>
           x \<in> set acc \<or> (\<exists>m\<in>set cursor. unreadBody threadsObject m = Inr (Some x))"
  unfolding unreadLoop_Inr [OF assms]
  by (simp add: pushed_by_body) metis

lemma unreadBody_Some:
  assumes "unreadBody threadsObject m = Inr (Some x)"
  shows "um_message x = latestMessage m \<and> newMessages (um_sender x) = 0 \<and>
         0 < newMessages (um_receiver x)"
  using assms
  by (auto simp: unreadBody_def findSender_def findReceiver_def deliver_def find_Some_iff
      split: option.splits if_splits)

lemma messagesPipeline_threadId:
  assumes "m \<in> set (messagesPipeline threadIds d)"
  shows "threadId (latestMessage m) = g_id m"
proof -
  let ?ms = "sort_key m_createdAt (filter (\<lambda>m. threadId m \<in> set threadIds) (db_messages d))"
  from assms obtain t where t: "t \<in> set (map threadId ?ms)"
    and m: "m = \<lparr>g_id = t, latestMessage = last (filter (\<lambda>m. threadId m = t) ?ms)\<rparr>"
    by (auto simp: messagesPipeline_def Let_def)
  from t have "filter (\<lambda>m. threadId m = t) ?ms \<noteq> []"
    by (auto simp: filter_empty_conv)
  then have "last (filter (\<lambda>m. threadId m = t) ?ms) \<in> set (filter (\<lambda>m. threadId m = t) ?ms)"
    by (rule last_in_set)
  then show ?thesis unfolding m by simp
qed

lemma fst_findUnreadDirectMessages:
  "fst (findUnreadDirectMessages this now d) =
     unreadLoop (map_of (rev (map (\<lambda>thread. (t_id thread, thread)) (threadsPipeline this now d))))
       (messagesPipeline (map t_id (threadsPipeline this now d)) d) []"
  by (simp add: findUnreadDirectMessages_def aggregate_def Let_def)

text \<open>
  C7.  In a thread of two participants the sender is the participant whose unread count
  is 0 and the receiver the participant whose unread count is greater than 0, in either
  order: the loop goes on with what \<open>deliver\<close> makes of this pair, and the element
  pushed carries them in these roles.  When the participants do not split this way (both
  at zero, or neither at zero) the loop pushes nothing for the thread and goes on with
  the next group.  For \<^verbatim>\<open>findUnreadDirectMessages\<close> itself, when it resolves: every
  element returned has a sender at 0 and a receiver above 0; the element of a thread
  that splits is among those returned; no element returned carries a message of a thread
  that does not split.
\<close>

theorem unread_pair_resolution:
  assumes "threadsObject (g_id message) = Some thread"
    and "participants thread = [p1, p2]"
  shows "(newMessages p1 = 0 \<and> 0 < newMessages p2 \<longrightarrow>
            findSender (participants thread) = Some p1 \<and>
            findReceiver (participants thread) = Some p2 \<and>
            unreadBody threadsObject message = deliver thread message p1 p2 \<and>
            unreadLoop threadsObject (message # cursor) acc =
              (case deliver thread message p1 p2 of
                 Inl e \<Rightarrow> Inl e
               | Inr None \<Rightarrow> unreadLoop threadsObject cursor acc
               | Inr (Some m) \<Rightarrow> unreadLoop threadsObject cursor (acc @ [m]))) \<and>
         (newMessages p2 = 0 \<and> 0 < newMessages p1 \<longrightarrow>
            findSender (participants thread) = Some p2 \<and>
            findReceiver (participants thread) = Some p1 \<and>
            unreadBody threadsObject message = deliver thread message p2 p1 \<and>
            unreadLoop threadsObject (message # cursor) acc =
              (case deliver thread message p2 p1 of
                 Inl e \<Rightarrow> Inl e
               | Inr None \<Rightarrow> unreadLoop threadsObject cursor acc
               | Inr (Some m) \<Rightarrow> unreadLoop threadsObject cursor (acc @ [m]))) \<and>
         (\<not> (newMessages p1 = 0 \<and> 0 < newMessages p2) \<and>
          \<not> (newMessages p2 = 0 \<and> 0 < newMessages p1) \<longrightarrow>
            unreadBody threadsObject message = Inr None \<and>
            unreadLoop threadsObject (message # cursor) acc =
              unreadLoop threadsObject cursor acc) \<and>
         (\<forall>s r m. deliver thread message s r = Inr (Some m) \<longrightarrow>
            um_sender m = s \<and> um_receiver m = r) \<and>
         (threadsObject =
            map_of (rev (map (\<lambda>thread. (t_id thread, thread)) (threadsPipeline this now d))) \<and>
          message \<in> set (messagesPipeline (map t_id (threadsPipeline this now d)) d) \<and>
          fst (findUnreadDirectMessages this now d) = Inr out \<longrightarrow>
            (\<forall>x\<in>set out. newMessages (um_sender x) = 0 \<and> 0 < newMessages (um_receiver x)) \<and>
            (\<forall>x. newMessages p1 = 0 \<and> 0 < newMessages p2 \<and>
                 deliver thread message p1 p2 = Inr (Some x) \<longrightarrow>
                 x \<in> set out \<and> um_sender x = p1 \<and> um_receiver x = p2) \<and>
            (\<forall>x. newMessages p2 = 0 \<and> 0 < newMessages p1 \<and>
                 deliver thread message p2 p1 = Inr (Some x) \<longrightarrow>
                 x \<in> set out \<and> um_sender x = p2 \<and> um_receiver x = p1) \<and>
            (\<not> (newMessages p1 = 0 \<and> 0 < newMessages p2) \<and>
             \<not> (newMessages p2 = 0 \<and> 0 < newMessages p1) \<longrightarrow>
               (\<forall>x\<in>set out. threadId (um_message x) \<noteq> g_id message)))"
proof -
  let ?split12 = "newMessages p1 = 0 \<and> 0 < newMessages p2"
  let ?split21 = "newMessages p2 = 0 \<and> 0 < newMessages p1"
  have b12: "findSender (participants thread) = Some p1 \<and>
             findReceiver (participants thread) = Some p2 \<and>
             unreadBody threadsObject message = deliver thread message p1 p2" if ?split12
    using assms that by (auto simp: unreadBody_def findSender_def findReceiver_def)
  have b21: "findSender (participants thread) = Some p2 \<and>
             findReceiver (participants thread) = Some p1 \<and>
             unreadBody threadsObject message = deliver thread message p2 p1" if ?split21
    using assms that by (auto simp: unreadBody_def findSender_def findReceiver_def)
  have b0: "unreadBody threadsObject message = Inr None" if "\<not> ?split12" "\<not> ?split21"
    using assms that by (auto simp: unreadBody_def findSender_def findReceiver_def)
  have l12: "unreadLoop threadsObject (message # cursor) acc =
              (case deliver thread message p1 p2 of
                 Inl e \<Rightarrow> Inl e
               | Inr None \<Rightarrow> unreadLoop threadsObject cursor acc
               | Inr (Some m) \<Rightarrow> unreadLoop threadsObject cursor (acc @ [m]))" if ?split12
    using b12 [OF that] by simp
  have l21: "unreadLoop threadsObject (message # cursor) acc =
              (case deliver thread message p2 p1 of
                 Inl e \<Rightarrow> Inl e
               | Inr None \<Rightarrow> unreadLoop threadsObject cursor acc
               | Inr (Some m) \<Rightarrow> unreadLoop threadsObject cursor (acc @ [m]))" if ?split21
    using b21 [OF that] by simp
  have l0: "unreadLoop threadsObject (message # cursor) acc = unreadLoop threadsObject cursor acc"
    if "\<not> ?split12" "\<not> ?split21"
    using b0 [OF that] by simp
  have roles: "\<forall>s r m. deliver thread message s r = Inr (Some m) \<longrightarrow>
            um_sender m = s \<and> um_receiver m = r"
    by (auto dest: deliver_roles)
  have whole: "(\<forall>x\<in>set out. newMessages (um_sender x) = 0 \<and> 0 < newMessages (um_receiver x)) \<and>
            (\<forall>x. ?split12 \<and> deliver thread message p1 p2 = Inr (Some x) \<longrightarrow>
                 x \<in> set out \<and> um_sender x = p1 \<and> um_receiver x = p2) \<and>
            (\<forall>x. ?split21 \<and> deliver thread message p2 p1 = Inr (Some x) \<longrightarrow>
                 x \<in> set out \<and> um_sender x = p2 \<and> um_receiver x = p1) \<and>
            (\<not> ?split12 \<and> \<not> ?split21 \<longrightarrow>
               (\<forall>x\<in>set out. threadId (um_message x) \<noteq> g_id message))"
    if tobj: "threadsObject =
            map_of (rev (map (\<lambda>thread. (t_id thread, thread)) (threadsPipeline this now d)))"
      and msg: "message \<in> set (messagesPipeline (map t_id (threadsPipeline this now d)) d)"
      and out: "fst (findUnreadDirectMessages this now d) = Inr out"
  proof -
    let ?cursor = "messagesPipeline (map t_id (threadsPipeline this now d)) d"
    from out have loop: "unreadLoop threadsObject ?cursor [] = Inr out"
      unfolding fst_findUnreadDirectMessages tobj .
    have pushed: "x \<in> set out \<longleftrightarrow> (\<exists>m\<in>set ?cursor. unreadBody threadsObject m = Inr (Some x))"
      for x using unreadLoop_pushed [OF loop, of x] by simp
    have 1: "\<forall>x\<in>set out. newMessages (um_sender x) = 0 \<and> 0 < newMessages (um_receiver x)"
      using pushed unreadBody_Some by blast
    have 2: "x \<in> set out \<and> um_sender x = p1 \<and> um_receiver x = p2"
      if "?split12" "deliver thread message p1 p2 = Inr (Some x)" for x
    proof -
      from b12 [OF that(1)] that(2) have "unreadBody threadsObject message = Inr (Some x)" by simp
      with msg have "x \<in> set out" unfolding pushed by blast
      with deliver_roles [OF that(2)] show ?thesis by simp
    qed
    have 3: "x \<in> set out \<and> um_sender x = p2 \<and> um_receiver x = p1"
      if "?split21" "deliver thread message p2 p1 = Inr (Some x)" for x
    proof -
      from b21 [OF that(1)] that(2) have "unreadBody threadsObject message = Inr (Some x)" by simp
      with msg have "x \<in> set out" unfolding pushed by blast
      with deliver_roles [OF that(2)] show ?thesis by simp
    qed
    have 4: "\<forall>x\<in>set out. threadId (um_message x) \<noteq> g_id message"
      if ns: "\<not> ?split12" "\<not> ?split21"
    proof
      fix x assume "x \<in> set out"
      then obtain m where m: "m \<in> set ?cursor" and bm: "unreadBody threadsObject m = Inr (Some x)"
        unfolding pushed by blast
      from unreadBody_Some [OF bm] messagesPipeline_threadId [OF m]
      have g: "threadId (um_message x) = g_id m" by simp
      show "threadId (um_message x) \<noteq> g_id message"
      proof
        assume "threadId (um_message x) = g_id message"
        with g have "g_id m = g_id message" by simp
        with assms ns have "unreadBody threadsObject m = Inr None"
          by (auto simp: unreadBody_def findSender_def findReceiver_def)
        with bm show False by simp
      qed
    qed
    from 1 2 3 4 show ?thesis by blast
  qed
  from b12 b21 b0 l12 l21 l0 roles whole show ?thesis by blast
qed

text \<open>
  The spec's examples, and a database with a thread that splits and a thread in which
  both participants have unread messages: the first is returned, the second skipped.
\<close>

theorem unread_pair_resolution_witness:
  "findSender (participants thread_pair) = Some (mkParticipant ''u1'' 0) \<and>
   findReceiver (participants thread_pair) = Some (mkParticipant ''u2'' 3) \<and>
   unreadBody [''t2'' \<mapsto> thread_pair] \<lparr>g_id = ''t2'', latestMessage = message2\<rparr> =
     Inr (Some \<lparr>um_sender = mkParticipant ''u1'' 0, um_receiver = mkParticipant ''u2'' 3,
                um_email = ''bob@example.org'', um_message = message2\<rparr>) \<and>
   unreadBody [''t3'' \<mapsto> thread_idle] \<lparr>g_id = ''t3'', latestMessage = message2\<rparr> = Inr None \<and>
   fst (findUnreadDirectMessages this0 1000000 db_busy) =
     Inr [\<lparr>um_sender = mkParticipant ''u1'' 0, um_receiver = mkParticipant ''u2'' 2,
            um_email = ''bob@example.org'', um_message = message2\<rparr>] \<and>
   \<lparr>um_sender = mkParticipant ''u1'' 0, um_receiver = mkParticipant ''u2'' 2,
     um_email = ''bob@example.org'', um_message = message2\<rparr>
     \<in> set (projr (fst (findUnreadDirectMessages this0 1000000 db_busy))) \<and>
   ''t4'' \<notin> set (map (\<lambda>x. threadId (um_message x))
                  (projr (fst (findUnreadDirectMessages this0 1000000 db_busy))))"
proof -
  have p: "participants thread_pair = [mkParticipant ''u1'' 0, mkParticipant ''u2'' 3]"
    by (simp add: thread_pair_def)
  have i: "participants thread_idle = [mkParticipant ''u1'' 0, mkParticipant ''u2'' 0]"
    by (simp add: thread_idle_def)
  have n: "newMessages (mkParticipant ''u1'' 0) = 0" "newMessages (mkParticipant ''u2'' 3) = 3"
    "newMessages (mkParticipant ''u2'' 0) = 0" "newMessages (mkParticipant ''u2'' 2) = 2"
    "newMessages (mkParticipant ''u1'' 1) = 1"
    by (simp_all add: mkParticipant_def)
  have d: "deliver thread_pair \<lparr>g_id = ''t2'', latestMessage = message2\<rparr>
            (mkParticipant ''u1'' 0) (mkParticipant ''u2'' 3) =
           Inr (Some \<lparr>um_sender = mkParticipant ''u1'' 0, um_receiver = mkParticipant ''u2'' 3,
                um_email = ''bob@example.org'', um_message = message2\<rparr>)"
    by (simp add: deliver_def thread_pair_def alice_def bob_def mkParticipant_def)
  note body =
    unread_pair_resolution [of "[''t2'' \<mapsto> thread_pair]"
      "\<lparr>g_id = ''t2'', latestMessage = message2\<rparr>" thread_pair, OF _ p]
    unread_pair_resolution [of "[''t3'' \<mapsto> thread_idle]"
      "\<lparr>g_id = ''t3'', latestMessage = message2\<rparr>" thread_idle, OF _ i]
  let ?tobj = "map_of (rev (map (\<lambda>thread. (t_id thread, thread))
                 (threadsPipeline this0 1000000 db_busy)))"
  let ?cursor = "messagesPipeline (map t_id (threadsPipeline this0 1000000 db_busy)) db_busy"
  let ?t2 = "\<lparr>t_id = ''t2'',
              participants = [mkParticipant ''u1'' 0, mkParticipant ''u2'' 2],
              joined_users = [alice, bob]\<rparr>"
  let ?t4 = "\<lparr>t_id = ''t4'',
              participants = [mkParticipant ''u1'' 1, mkParticipant ''u2'' 2],
              joined_users = [alice, bob]\<rparr>"
  let ?g2 = "\<lparr>g_id = ''t2'', latestMessage = message2\<rparr>"
  let ?g4 = "\<lparr>g_id = ''t4'', latestMessage = message3\<rparr>"
  let ?x = "\<lparr>um_sender = mkParticipant ''u1'' 0, um_receiver = mkParticipant ''u2'' 2,
              um_email = ''bob@example.org'', um_message = message2\<rparr>"
  have t2: "?tobj (g_id ?g2) = Some ?t2" by code_simp
  have t4: "?tobj (g_id ?g4) = Some ?t4" by code_simp
  have c2: "?g2 \<in> set ?cursor" by code_simp
  have c4: "?g4 \<in> set ?cursor" by code_simp
  have out: "fst (findUnreadDirectMessages this0 1000000 db_busy) = Inr [?x]" by code_simp
  have d2: "deliver ?t2 ?g2 (mkParticipant ''u1'' 0) (mkParticipant ''u2'' 2) = Inr (Some ?x)"
    by (simp add: deliver_def alice_def bob_def mkParticipant_def)
  from unread_pair_resolution [of ?tobj ?g2 ?t2 "mkParticipant ''u1'' 0"
      "mkParticipant ''u2'' 2" _ _ this0 1000000 db_busy "[?x]", OF t2] c2 out d2
  have in_out: "?x \<in> set [?x]"
    by (simp add: n)
  from unread_pair_resolution [of ?tobj ?g4 ?t4 "mkParticipant ''u1'' 1"
      "mkParticipant ''u2'' 2" _ _ this0 1000000 db_busy "[?x]", OF t4] c4 out
  have skipped: "\<forall>x\<in>set [?x]. threadId (um_message x) \<noteq> ''t4''"
    by (simp add: n)
  from body have old:
    "findSender (participants thread_pair) = Some (mkParticipant ''u1'' 0) \<and>
     findReceiver (participants thread_pair) = Some (mkParticipant ''u2'' 3) \<and>
     unreadBody [''t2'' \<mapsto> thread_pair] \<lparr>g_id = ''t2'', latestMessage = message2\<rparr> =
       Inr (Some \<lparr>um_sender = mkParticipant ''u1'' 0, um_receiver = mkParticipant ''u2'' 3,
                um_email = ''bob@example.org'', um_message = message2\<rparr>) \<and>
     unreadBody [''t3'' \<mapsto> thread_idle] \<lparr>g_id = ''t3'', latestMessage = message2\<rparr> = Inr None"
    by (simp add: n d)
  from old out in_out skipped show ?thesis by simp
qed

text \<open>
  C2.  A thread whose receiver has no user document among the joined users is not
  skipped: destructuring the missing user throws, and the whole call rejects, although
  the other thread alone yields its message.
\<close>

theorem findUnreadDirectMessages_orphan_receiver:
  "fst (findUnreadDirectMessages this0 1000000 db_orphan) = Inl TypeError \<and>
   fst (findUnreadDirectMessages this0 1000000 db_sound) =
     Inr [\<lparr>um_sender = mkParticipant ''u1'' 0, um_receiver = mkParticipant ''u2'' 2,
            um_email = ''bob@example.org'', um_message = message2\<rparr>]"
  by code_simp

text \<open>
  C9.  \<^verbatim>\<open>findUnreadDirectMessages\<close> performs no write: whatever it returns, the four
  collections are after the call what they were before.
\<close>

theorem findUnreadDirectMessages_reads_only:
  "snd (findUnreadDirectMessages this now d) = d"
  by (simp add: findUnreadDirectMessages_def aggregate_def Let_def)

theorem findUnreadDirectMessages_reads_only_witness:
  "snd (findUnreadDirectMessages this0 1000000 db_sound) = db_sound"
  by (rule findUnreadDirectMessages_reads_only)

section \<open>Notification finder: the claims\<close>

lemma in_join:
  "(u, ns) \<in> set (concat (map (\<lambda>r. map (\<lambda>u. (u, F r)) (filter (\<lambda>u. k u = r) us)) rs)) \<longleftrightarrow>
     u \<in> set us \<and> k u \<in> set rs \<and> ns = F (k u)"
  by auto

lemma in_digestPipeline:
  "(ru, ns) \<in> set (digestPipeline undefined_days now frequency d) \<longleftrightarrow>
     ru \<in> set (db_users d) \<and> ns \<noteq> [] \<and>
     ns = filter (\<lambda>n. n_receiver n = u_id ru)
            (digestSelected undefined_days now frequency d)"
proof -
  let ?sel = "digestSelected undefined_days now frequency d"
  have nonempty: "filter (\<lambda>n. n_receiver n = r) ?sel \<noteq> [] \<longleftrightarrow> r \<in> n_receiver ` set ?sel"
    for r by (auto simp: filter_empty_conv)
  have "(ru, ns) \<in> set (digestPipeline undefined_days now frequency d) \<longleftrightarrow>
          ru \<in> set (db_users d) \<and> u_id ru \<in> set (remdups (map n_receiver ?sel)) \<and>
               ns = filter (\<lambda>n. n_receiver n = u_id ru) ?sel"
    unfolding digestPipeline_def Let_def by (rule in_join)
  also have "\<dots> \<longleftrightarrow> ru \<in> set (db_users d) \<and> ns \<noteq> [] \<and>
               ns = filter (\<lambda>n. n_receiver n = u_id ru) ?sel"
    using nonempty [of "u_id ru"] by auto
  finally show ?thesis .
qed

lemma in_processed:
  "i \<in> set (concat (map (\<lambda>(ru, ns). map n_id ns) gs)) \<longleftrightarrow>
     (\<exists>ru ns n. (ru, ns) \<in> set gs \<and> n \<in> set ns \<and> n_id n = i)"
  (is "?lhs \<longleftrightarrow> ?rhs")
proof
  assume ?lhs
  then obtain g where g: "g \<in> set gs" and i: "i \<in> set (case g of (ru, ns) \<Rightarrow> map n_id ns)"
    unfolding set_concat set_map by blast
  obtain ru ns where p: "g = (ru, ns)" by (cases g)
  from i p obtain n where "n \<in> set ns" "n_id n = i" by auto
  with g p show ?rhs by blast
next
  assume ?rhs
  then obtain ru ns n where g: "(ru, ns) \<in> set gs" and n: "n \<in> set ns" "n_id n = i" by blast
  from n have "i \<in> set (case (ru, ns) of (ru, ns) \<Rightarrow> map n_id ns)" by auto
  with g show ?lhs unfolding set_concat set_map by blast
qed

lemma processed_ids:
  "i \<in> set (concat (map (\<lambda>(ru, ns). map n_id ns)
              (digestPipeline undefined_days now frequency d))) \<longleftrightarrow>
     (\<exists>n\<in>set (digestSelected undefined_days now frequency d).
         n_id n = i \<and> (\<exists>ru\<in>set (db_users d). u_id ru = n_receiver n))"
  (is "?lhs \<longleftrightarrow> ?rhs")
proof
  let ?sel = "digestSelected undefined_days now frequency d"
  assume ?lhs
  then obtain ru ns n where g: "(ru, ns) \<in> set (digestPipeline undefined_days now frequency d)"
    and n: "n \<in> set ns" "n_id n = i" unfolding in_processed by blast
  from g have ru: "ru \<in> set (db_users d)"
    and ns: "ns = filter (\<lambda>n. n_receiver n = u_id ru) ?sel"
    unfolding in_digestPipeline by simp_all
  from n(1) have "n \<in> set ?sel" "u_id ru = n_receiver n" unfolding ns by simp_all
  with ru n(2) show ?rhs by blast
next
  let ?sel = "digestSelected undefined_days now frequency d"
  assume ?rhs
  then obtain n ru where n: "n \<in> set ?sel" "n_id n = i" "ru \<in> set (db_users d)"
    "u_id ru = n_receiver n" by blast
  let ?ns = "filter (\<lambda>m. n_receiver m = u_id ru) ?sel"
  from n(1,4) have m: "n \<in> set ?ns" by simp
  then have "?ns \<noteq> []" by (metis empty_iff list.set(1))
  with n(3) have "(ru, ?ns) \<in> set (digestPipeline undefined_days now frequency d)"
    unfolding in_digestPipeline by simp
  with m n(2) show ?lhs unfolding in_processed by blast
qed

text \<open>
  C8, as the code has it.  For the daily, weekly and biweekly tiers (1, 7 and 14 days)
  the query selects the notifications with no stamp of the tier created strictly after
  the clock reading minus the window.  The digest path builds one digest per user
  document that is the receiver of at least one of them, from exactly that receiver's
  selected notifications, and stamps exactly the notifications that share the id of a
  selected notification whose receiver has a user document.
\<close>

theorem digest_path_selection:
  assumes "intervalDays frequency = Some days"
  shows "frequency \<in> {EmailFrequency_DAILY, EmailFrequency_WEEKLY, EmailFrequency_BIWEEKLY} \<and>
    intervalDays EmailFrequency_DAILY = Some 1 \<and>
    intervalDays EmailFrequency_WEEKLY = Some 7 \<and>
    intervalDays EmailFrequency_BIWEEKLY = Some 14 \<and>
    digestSelected undefined_days now frequency d =
      filter (\<lambda>n. map_of (emailSentAt n) frequency = None \<and>
                  now - days * 86400000 < createdAt n) (db_notifications d) \<and>
    (\<forall>ru ns. (ru, ns) \<in> set (digestPipeline undefined_days now frequency d) \<longleftrightarrow>
        ru \<in> set (db_users d) \<and> ns \<noteq> [] \<and>
        ns = filter (\<lambda>n. map_of (emailSentAt n) frequency = None \<and>
                         now - days * 86400000 < createdAt n \<and>
                         n_receiver n = u_id ru) (db_notifications d)) \<and>
    fst (findDigestNotifications undefined_days now stamp_time frequency d) =
      Inr (map (\<lambda>(receiver_user, ns).
                  \<lparr>posts = aggregateNotifications ns, digest_receiver = receiver_user\<rparr>)
             (digestPipeline undefined_days now frequency d)) \<and>
    snd (findDigestNotifications undefined_days now stamp_time frequency d) =
      d\<lparr>db_notifications :=
          map (\<lambda>n. if \<exists>m\<in>set (db_notifications d).
                        n_id m = n_id n \<and> map_of (emailSentAt m) frequency = None \<and>
                        now - days * 86400000 < createdAt m \<and>
                        (\<exists>ru\<in>set (db_users d). u_id ru = n_receiver m)
                   then n\<lparr>emailSentAt := AList.update frequency stamp_time (emailSentAt n)\<rparr>
                   else n)
            (db_notifications d)\<rparr> \<and>
    findNotifications this undefined_days now stamp_time frequency d =
      (map_sum id Digests (fst (findDigestNotifications undefined_days now stamp_time frequency d)),
       snd (findDigestNotifications undefined_days now stamp_time frequency d))"
proof -
  let ?want = "\<lambda>n. map_of (emailSentAt n) frequency = None \<and> now - days * 86400000 < createdAt n"
  from assms have tier:
    "frequency \<in> {EmailFrequency_DAILY, EmailFrequency_WEEKLY, EmailFrequency_BIWEEKLY}"
    by (auto simp: intervalDays_def split: if_splits)
  have days: "intervalDays EmailFrequency_DAILY = Some 1"
    "intervalDays EmailFrequency_WEEKLY = Some 7"
    "intervalDays EmailFrequency_BIWEEKLY = Some 14"
    by (simp_all add: intervalDays_def EmailFrequency_DAILY_def EmailFrequency_WEEKLY_def
          EmailFrequency_BIWEEKLY_def)
  from assms have cut: "digestCutoff undefined_days now frequency = now - days * 86400000"
    by (simp add: digestCutoff_def subtractDays_def)
  have sel: "digestSelected undefined_days now frequency d = filter ?want (db_notifications d)"
    by (simp add: digestSelected_def cut)
  have groups: "\<forall>ru ns. (ru, ns) \<in> set (digestPipeline undefined_days now frequency d) \<longleftrightarrow>
        ru \<in> set (db_users d) \<and> ns \<noteq> [] \<and>
        ns = filter (\<lambda>n. map_of (emailSentAt n) frequency = None \<and>
                         now - days * 86400000 < createdAt n \<and>
                         n_receiver n = u_id ru) (db_notifications d)"
    unfolding in_digestPipeline sel by (simp add: conj_commute conj_left_commute)
  have result: "fst (findDigestNotifications undefined_days now stamp_time frequency d) =
      Inr (map (\<lambda>(receiver_user, ns).
                  \<lparr>posts = aggregateNotifications ns, digest_receiver = receiver_user\<rparr>)
             (digestPipeline undefined_days now frequency d))"
    by (simp add: findDigestNotifications_def aggregate_def Let_def)
  let ?ids = "concat (map (\<lambda>(ru, ns). map n_id ns)
                 (digestPipeline undefined_days now frequency d))"
  have ids: "i \<in> set ?ids \<longleftrightarrow>
             (\<exists>m\<in>set (db_notifications d).
                 n_id m = i \<and> map_of (emailSentAt m) frequency = None \<and>
                 now - days * 86400000 < createdAt m \<and>
                 (\<exists>ru\<in>set (db_users d). u_id ru = n_receiver m))" for i
    unfolding processed_ids sel by auto
  have "snd (findDigestNotifications undefined_days now stamp_time frequency d) =
          setEmailSentAt ?ids frequency stamp_time d"
    by (simp add: findDigestNotifications_def aggregate_def Let_def)
  also have "\<dots> =
      d\<lparr>db_notifications :=
          map (\<lambda>n. if \<exists>m\<in>set (db_notifications d).
                        n_id m = n_id n \<and> map_of (emailSentAt m) frequency = None \<and>
                        now - days * 86400000 < createdAt m \<and>
                        (\<exists>ru\<in>set (db_users d). u_id ru = n_receiver m)
                   then n\<lparr>emailSentAt := AList.update frequency stamp_time (emailSentAt n)\<rparr>
                   else n)
            (db_notifications d)\<rparr>"
    unfolding setEmailSentAt_def ids ..
  finally have stamp: "snd (findDigestNotifications undefined_days now stamp_time frequency d) =
      d\<lparr>db_notifications :=
          map (\<lambda>n. if \<exists>m\<in>set (db_notifications d).
                        n_id m = n_id n \<and> map_of (emailSentAt m) frequency = None \<and>
                        now - days * 86400000 < createdAt m \<and>
                        (\<exists>ru\<in>set (db_users d). u_id ru = n_receiver m)
                   then n\<lparr>emailSentAt := AList.update frequency stamp_time (emailSentAt n)\<rparr>
                   else n)
            (db_notifications d)\<rparr>" .
  from tier have "frequency \<noteq> EmailFrequency_INSTANT"
    by (auto simp: EmailFrequency_INSTANT_def EmailFrequency_DAILY_def
          EmailFrequency_WEEKLY_def EmailFrequency_BIWEEKLY_def)
  then have disp: "findNotifications this undefined_days now stamp_time frequency d =
      (map_sum id Digests (fst (findDigestNotifications undefined_days now stamp_time frequency d)),
       snd (findDigestNotifications undefined_days now stamp_time frequency d))"
    by (simp add: findNotifications_def split: prod.splits)
  from tier days sel groups result stamp disp show ?thesis by blast
qed

text \<open>
  At the weekly boundary: the notification created exactly seven days before is left
  out, the one created six days before is selected, aggregated for its receiver and
  stamped.
\<close>

theorem digest_path_selection_witness:
  "createdAt week_old = 700000000 - 7 * 86400000 \<and>
   createdAt six_days_old = 700000000 - 6 * 86400000 \<and>
   digestSelected epoch 700000000 EmailFrequency_WEEKLY db_week = [six_days_old] \<and>
   (alice, [six_days_old]) \<in> set (digestPipeline epoch 700000000 EmailFrequency_WEEKLY db_week) \<and>
   map emailSentAt (db_notifications
     (snd (findDigestNotifications epoch 700000000 700000001 EmailFrequency_WEEKLY db_week))) =
     [[], [(''weekly'', 700000001)], [(''weekly'', 5)]]"
proof -
  have i: "intervalDays EmailFrequency_WEEKLY = Some 7"
    by (simp add: intervalDays_def EmailFrequency_DAILY_def EmailFrequency_WEEKLY_def)
  note t = digest_path_selection [OF i, of epoch 700000000 db_week 700000001 this0]
  have c: "createdAt week_old = 700000000 - 7 * 86400000"
    "createdAt six_days_old = 700000000 - 6 * 86400000"
    by (simp_all add: week_old_def six_days_old_def mkNotification_def)
  have f: "filter (\<lambda>n. map_of (emailSentAt n) EmailFrequency_WEEKLY = None \<and>
                  700000000 - 7 * 86400000 < createdAt n) (db_notifications db_week) =
           [six_days_old]"
    by (simp add: db_week_def week_old_def six_days_old_def sent_weekly_def mkNotification_def
          EmailFrequency_WEEKLY_def)
  with t have s: "digestSelected epoch 700000000 EmailFrequency_WEEKLY db_week = [six_days_old]"
    by simp
  have g: "filter (\<lambda>n. map_of (emailSentAt n) EmailFrequency_WEEKLY = None \<and>
                  700000000 - 7 * 86400000 < createdAt n \<and> n_receiver n = u_id alice)
             (db_notifications db_week) = [six_days_old]"
    by (simp add: db_week_def week_old_def six_days_old_def sent_weekly_def mkNotification_def
          EmailFrequency_WEEKLY_def alice_def)
  have "alice \<in> set (db_users db_week)" by (simp add: db_week_def)
  with t g have p: "(alice, [six_days_old]) \<in>
      set (digestPipeline epoch 700000000 EmailFrequency_WEEKLY db_week)"
    by simp
  have m: "map emailSentAt (db_notifications
     (snd (findDigestNotifications epoch 700000000 700000001 EmailFrequency_WEEKLY db_week))) =
     [[], [(''weekly'', 700000001)], [(''weekly'', 5)]]"
    by code_simp
  from c s p m show ?thesis by simp
qed

text \<open>
  C8, as stated, fails: a notification with no weekly stamp, created six days before,
  whose receiver has no user document is in no digest and gets no stamp.
\<close>

theorem digest_drops_unknown_receiver:
  "map_of (emailSentAt stray) EmailFrequency_WEEKLY = None \<and>
   700000000 - 7 * 86400000 < createdAt stray \<and>
   stray \<in> set (db_notifications db_stray) \<and>
   findDigestNotifications epoch 700000000 700000001 EmailFrequency_WEEKLY db_stray =
     (Inr [], db_stray)"
  by code_simp




lemma in_instantPipeline:
  "(n, u) \<in> set (instantPipeline this now d) \<longleftrightarrow>
     n \<in> set (db_notifications d) \<and> readAt n = None \<and>
     map_of (emailSentAt n) ''instant'' = None \<and>
     createdAt n < subtractMinutes now (instantUnreadLookbackInterval this) \<and>
     u \<in> set (db_users d) \<and> u_id u = n_receiver n"
  by (auto simp: instantPipeline_def)

lemma in_setEmailSentAt:
  "n' \<in> set (db_notifications (setEmailSentAt ids f t d)) \<longleftrightarrow>
     (\<exists>n\<in>set (db_notifications d).
        (n_id n \<in> set ids \<and> n' = n\<lparr>emailSentAt := AList.update f t (emailSentAt n)\<rparr>) \<or>
        (n_id n \<notin> set ids \<and> n' = n))"
  by (auto simp: setEmailSentAt_def)

lemma users_setEmailSentAt: "db_users (setEmailSentAt ids f t d) = db_users d"
  by (simp add: setEmailSentAt_def)

lemma findInstantNotifications_eq:
  "findInstantNotifications this now stamp_time d =
     (Inr (instantPipeline this now d),
      setEmailSentAt (map (\<lambda>x. n_id (fst x)) (instantPipeline this now d))
        ''instant'' stamp_time d)"
  by (simp add: findInstantNotifications_def aggregate_def Let_def EmailFrequency_INSTANT_def)

text \<open>
  C6, as the code has it.  The instant finder stamps every notification it returns
  before returning, so a second call on the database the first one left returns none of
  them.  The second result is empty when no notification's creation time lies between
  the two lookback thresholds, in particular when the clock of the second call is not
  later than that of the first.
\<close>

theorem instant_twice:
  assumes "findInstantNotifications this now1 stamp1 d = (Inr first, d1)"
    and "findInstantNotifications this now2 stamp2 d1 = (Inr second, d2)"
  shows "(\<forall>x\<in>set first. \<forall>n\<in>set (db_notifications d1).
            n_id n = n_id (fst x) \<longrightarrow> map_of (emailSentAt n) ''instant'' = Some stamp1) \<and>
         (\<forall>x\<in>set first. \<forall>y\<in>set second. n_id (fst y) \<noteq> n_id (fst x)) \<and>
         ((\<forall>n\<in>set (db_notifications d).
              \<not> (subtractMinutes now1 (instantUnreadLookbackInterval this) \<le> createdAt n \<and>
                 createdAt n < subtractMinutes now2 (instantUnreadLookbackInterval this)))
            \<longrightarrow> second = []) \<and>
         (now2 \<le> now1 \<longrightarrow> second = [])"
proof -
  let ?L = "instantUnreadLookbackInterval this"
  let ?ids = "map (\<lambda>x. n_id (fst x)) first"
  from assms(1) have first: "first = instantPipeline this now1 d"
    and d1: "d1 = setEmailSentAt ?ids ''instant'' stamp1 d"
    by (auto simp: findInstantNotifications_eq)
  from assms(2) have second: "second = instantPipeline this now2 d1"
    by (simp add: findInstantNotifications_eq)
  have stamped: "map_of (emailSentAt n) ''instant'' = Some stamp1"
    if "n \<in> set (db_notifications d1)" "n_id n \<in> set ?ids" for n
    using that unfolding d1 in_setEmailSentAt by (auto simp: update_conv')
  have untouched: "n \<in> set (db_notifications d) \<and> n_id n \<notin> set ?ids"
    if "n \<in> set (db_notifications d1)" "map_of (emailSentAt n) ''instant'' = None" for n
    using that unfolding d1 in_setEmailSentAt by (auto simp: update_conv')
  have a: "\<forall>x\<in>set first. \<forall>n\<in>set (db_notifications d1).
            n_id n = n_id (fst x) \<longrightarrow> map_of (emailSentAt n) ''instant'' = Some stamp1"
    using stamped by auto
  have b: "\<forall>x\<in>set first. \<forall>y\<in>set second. n_id (fst y) \<noteq> n_id (fst x)"
  proof (intro ballI)
    fix x y assume x: "x \<in> set first" and y: "y \<in> set second"
    obtain n u where yn: "y = (n, u)" by (cases y)
    with y have "n \<in> set (db_notifications d1)" "map_of (emailSentAt n) ''instant'' = None"
      unfolding second by (simp_all add: in_instantPipeline)
    from untouched [OF this] have "n_id n \<notin> set ?ids" ..
    with x yn show "n_id (fst y) \<noteq> n_id (fst x)" by auto
  qed
  have c: "second = []"
    if quiet: "\<forall>n\<in>set (db_notifications d).
              \<not> (subtractMinutes now1 ?L \<le> createdAt n \<and> createdAt n < subtractMinutes now2 ?L)"
  proof (rule ccontr)
    assume "second \<noteq> []"
    then obtain y where y: "y \<in> set second" by (cases second) auto
    obtain n u where yn: "y = (n, u)" by (cases y)
    from y yn have m: "n \<in> set (db_notifications d1)" "readAt n = None"
      "map_of (emailSentAt n) ''instant'' = None" "createdAt n < subtractMinutes now2 ?L"
      "u \<in> set (db_users d1)" "u_id u = n_receiver n"
      unfolding second by (simp_all add: in_instantPipeline)
    from untouched [OF m(1) m(3)] have n: "n \<in> set (db_notifications d)"
      and fresh: "n_id n \<notin> set ?ids" by simp_all
    from quiet n m(4) have "createdAt n < subtractMinutes now1 ?L" by force
    moreover from m(5) have "u \<in> set (db_users d)" unfolding d1 by (simp add: users_setEmailSentAt)
    ultimately have "(n, u) \<in> set first"
      unfolding first using n m(2,3,6) by (simp add: in_instantPipeline)
    then have "n_id n \<in> set ?ids" by force
    with fresh show False ..
  qed
  have e: "second = []" if "now2 \<le> now1"
  proof (rule c)
    from that have "subtractMinutes now2 ?L \<le> subtractMinutes now1 ?L"
      by (simp add: subtractMinutes_def)
    then show "\<forall>n\<in>set (db_notifications d).
        \<not> (subtractMinutes now1 ?L \<le> createdAt n \<and> createdAt n < subtractMinutes now2 ?L)"
      by auto
  qed
  from a b c e show ?thesis by blast
qed

theorem instant_twice_witness:
  "fst (findInstantNotifications this0 1300000 1300001 db_instant) = Inr [(aged, bob)] \<and>
   map emailSentAt (db_notifications (snd (findInstantNotifications this0 1300000 1300001 db_instant)))
     = [[(''instant'', 1300001)], []] \<and>
   fst (findInstantNotifications this0 1300000 1300002
          (snd (findInstantNotifications this0 1300000 1300001 db_instant))) = Inr []"
proof -
  obtain d1 where 1: "findInstantNotifications this0 1300000 1300001 db_instant =
      (Inr (instantPipeline this0 1300000 db_instant), d1)"
    by (simp add: findInstantNotifications_eq)
  obtain d2 where 2: "findInstantNotifications this0 1300000 1300002 d1 =
      (Inr (instantPipeline this0 1300000 d1), d2)"
    by (simp add: findInstantNotifications_eq)
  from instant_twice [OF 1 2] have "instantPipeline this0 1300000 d1 = []" by simp
  with 1 2 have "fst (findInstantNotifications this0 1300000 1300002
          (snd (findInstantNotifications this0 1300000 1300001 db_instant))) = Inr []"
    by simp
  moreover have "fst (findInstantNotifications this0 1300000 1300001 db_instant) = Inr [(aged, bob)]"
    by code_simp
  moreover have "map emailSentAt
      (db_notifications (snd (findInstantNotifications this0 1300000 1300001 db_instant)))
     = [[(''instant'', 1300001)], []]"
    by code_simp
  ultimately show ?thesis by simp
qed

text \<open>
  C6, as stated, fails: a notification created exactly at the threshold of the first
  call is not selected then, and is returned by a second call one millisecond later.
\<close>

theorem instant_second_call_not_empty:
  "fst (findInstantNotifications this0 1300000 1300000 db_instant) = Inr [(aged, bob)] \<and>
   fst (findInstantNotifications this0 1300001 1300001
          (snd (findInstantNotifications this0 1300000 1300000 db_instant))) =
     Inr [(fresh, alice)]"
  by code_simp

section \<open>URI builder: the claim\<close>

lemma show_27017: "show_int 27017 = ''27017''"
  by (simp add: show_int_def show_nat.simps digit_char_def)

text \<open>
  C10.  The connection string is the protocol, \<^verbatim>\<open>://\<close>, the credentials
  \<^verbatim>\<open>username:password@\<close> exactly when both username and password are truthy, the
  host, \<^verbatim>\<open>:port\<close> exactly when the port is truthy, and the write-concern suffix
  exactly when \<^verbatim>\<open>retryWrites\<close> is truthy.
\<close>

theorem buildUri_segments:
  "buildUri cfg =
     toString (protocol cfg) @ ''://''
     @ (if truthy (username cfg) \<and> truthy (password cfg)
        then toString (username cfg) @ '':'' @ toString (password cfg) @ ''@'' else '''')
     @ toString (host cfg)
     @ (if truthy (port cfg) then '':'' @ toString (port cfg) else '''')
     @ (if truthy (retryWrites cfg) then ''?retryWrites=true&w=majority'' else '''')"
  by (simp add: buildUri_def Let_def)

text \<open>
  A username without a password leaves no trace in the string.
\<close>

theorem buildUri_segments_witness:
  "buildUri cfg_user_only = ''mongodb://localhost:27017?retryWrites=true&w=majority''"
  using buildUri_segments [of cfg_user_only]
  by (simp add: cfg_user_only_def show_27017)

end
